theory Spec2Isabelle
  imports Complex_Main "HOL-Library.Log_Nat"
begin

section \<open>The Dataset class of src/data/dataset.py\<close>

text \<open>
  The theory embeds the class \<open>Dataset\<close>: the sequence lookup \<open>imgSeq\<close>, the setter of
  \<open>imgSeqs\<close>, and the two stack builders \<open>imgStackRGBOnly\<close> and
  \<open>imgStackDepthOnly\<close> with their three caches.

  Numbers: the arrays of the source are float32 and their elements are modelled as the
  real numbers they denote. The depth image, whose values a claim fixes exactly, is
  computed with every rounding of the source written out (\<open>f32\<close> for a float32 result,
  \<open>f64\<close> for a Python float). The labels and the color image are computed over
  \<open>real\<close> without rounding; the properties proved of them (ranges, saturation, the
  formula applied) do not rest on it. The values \<open>inf\<close> and \<open>nan\<close> that numpy
  produces on overflow and on division by zero are not real numbers: the theorems about
  computed values assume bounds, or a non-zero divisor, that exclude them.
\<close>

subsection \<open>Exceptions\<close>

datatype error = IndexError | KeyError | ValueError

subsection \<open>numpy arrays\<close>

text \<open>
  An array is its shape and its elements in row-major (C) order. A well-formed array has
  as many elements as its shape says.
\<close>

record ndarray =
  shape :: "nat list"
  elems :: "real list"

definition wf_ndarray :: "ndarray \<Rightarrow> bool" where
  "wf_ndarray a \<longleftrightarrow> length (elems a) = prod_list (shape a)"

text \<open>\<open>numpy.zeros(shape)\<close>.\<close>

definition zeros :: "nat list \<Rightarrow> ndarray" where
  "zeros shp = \<lparr>shape = shp, elems = replicate (prod_list shp) 0\<rparr>"

text \<open>An elementwise operation (\<open>a /= c\<close>, \<open>a -= c\<close>, \<open>a[a == 0] = c\<close>, \<open>clip\<close>).\<close>

definition nd_map :: "(real \<Rightarrow> real) \<Rightarrow> ndarray \<Rightarrow> ndarray" where
  "nd_map f a = a\<lparr>elems := map f (elems a)\<rparr>"

text \<open>\<open>numpy.clip(x, lo, hi)\<close> on one element: \<open>minimum(hi, maximum(x, lo))\<close>.\<close>

definition clip :: "real \<Rightarrow> real \<Rightarrow> real \<Rightarrow> real" where
  "clip x lo hi = min hi (max x lo)"

subsection \<open>Rounding to float32 and float64\<close>

text \<open>
  IEEE 754 binary formats with \<open>p\<close> significant bits and least normal exponent
  \<open>emin\<close>, rounding to nearest, ties to even. \<open>binade x\<close> is the exponent \<open>e\<close> with
  \<open>2^e \<le> |x| < 2^(e+1)\<close>; the numbers of the format near \<open>x\<close> are the multiples of
  \<open>2^(max e emin - (p - 1))\<close>, which covers the subnormal numbers and underflow to
  zero. float32 has 24 bits and least exponent -126, float64 has 53 and -1022. There is
  no largest number in the model: where numpy overflows to \<open>inf\<close> the model differs.
\<close>

definition pow2 :: "int \<Rightarrow> real" where
  "pow2 e = (if 0 \<le> e then 2 ^ nat e else 1 / 2 ^ nat (- e))"

definition round_even :: "real \<Rightarrow> int" where
  "round_even t =
     (let n = \<lfloor>t\<rfloor>; d = t - of_int n in
      if d < 1 / 2 then n else if 1 / 2 < d then n + 1 else if even n then n else n + 1)"

definition binade :: "real \<Rightarrow> int" where
  "binade x =
     (if 1 \<le> \<bar>x\<bar> then bitlen \<lfloor>\<bar>x\<bar>\<rfloor> - 1 else - bitlen (\<lceil>1 / \<bar>x\<bar>\<rceil> - 1))"

definition fl :: "nat \<Rightarrow> int \<Rightarrow> real \<Rightarrow> real" where
  "fl p emin x =
     (if x = 0 then 0
      else let q = pow2 (max (binade x) emin - (int p - 1))
           in of_int (round_even (x / q)) * q)"

definition f32 :: "real \<Rightarrow> real" where
  "f32 = fl 24 (- 126)"

definition f64 :: "real \<Rightarrow> real" where
  "f64 = fl 53 (- 1022)"

text \<open>The first \<open>n\<close> blocks of \<open>k\<close> elements: the sub-arrays along axis 0.\<close>

fun chunks :: "nat \<Rightarrow> nat \<Rightarrow> 'a list \<Rightarrow> 'a list list" where
  "chunks 0 k xs = []"
| "chunks (Suc n) k xs = take k xs # chunks n k (drop k xs)"

text \<open>
  Broadcasting of the elements of an array of shape \<open>ss\<close> to the shape \<open>ds\<close> of the same
  rank: an axis of the source is kept when it has the length of the target axis and is
  repeated when it has length 1; any other pair of lengths does not broadcast.
\<close>

fun bcast_ok :: "nat list \<Rightarrow> nat list \<Rightarrow> bool" where
  "bcast_ok [] [] = True"
| "bcast_ok (s # ss) (d # ds) = ((s = d \<or> s = 1) \<and> bcast_ok ss ds)"
| "bcast_ok _ _ = False"

fun bcast_elems :: "nat list \<Rightarrow> nat list \<Rightarrow> 'a list \<Rightarrow> 'a list" where
  "bcast_elems (s # ss) (d # ds) xs =
     (if s = d then concat (map (bcast_elems ss ds) (chunks s (prod_list ss) xs))
      else concat (replicate d (bcast_elems ss ds xs)))"
| "bcast_elems _ _ xs = xs"

text \<open>
  When the source has more axes than the target, numpy strips axes of length 1 from the
  left of its shape, as long as it has more axes.
\<close>

fun strip_ones :: "nat \<Rightarrow> nat list \<Rightarrow> nat list" where
  "strip_ones r [] = []"
| "strip_ones r (s # ss) = (if r < length (s # ss) \<and> s = 1 then strip_ones r ss else s # ss)"

text \<open>
  The value of an assignment \<open>dst[...] = src\<close> where the target has shape \<open>ds\<close>: the
  elements written, or \<open>None\<close> where numpy raises
  \<open>ValueError: could not broadcast input array\<close>. A source of lower rank is aligned to
  the right (axes of length 1 are added on the left).
\<close>

definition broadcast_to :: "nat list \<Rightarrow> ndarray \<Rightarrow> real list option" where
  "broadcast_to ds src =
     (let ss = strip_ones (length ds) (shape src) in
      if length ds < length ss then None
      else let ss' = replicate (length ds - length ss) 1 @ ss in
        if bcast_ok ss' ds then Some (bcast_elems ss' ds (elems src)) else None)"

text \<open>The sub-arrays \<open>a[0], a[1], ...\<close> of an array with at least one axis.\<close>

definition rows :: "ndarray \<Rightarrow> real list list" where
  "rows a = (case shape a of [] \<Rightarrow> [] | n # ds \<Rightarrow> chunks n (prod_list ds) (elems a))"

text \<open>The elements of \<open>a[i]\<close>, for \<open>i\<close> in range.\<close>

definition getitem :: "ndarray \<Rightarrow> nat \<Rightarrow> real list" where
  "getitem a i = rows a ! i"

text \<open>
  \<open>a[i] = src\<close> for an index \<open>i \<ge> 0\<close>: IndexError when \<open>i\<close> is out of range (or \<open>a\<close> has no
  axis), ValueError when \<open>src\<close> does not broadcast to the shape of \<open>a[i]\<close>.
\<close>

definition setitem :: "ndarray \<Rightarrow> nat \<Rightarrow> ndarray \<Rightarrow> error + ndarray" where
  "setitem a i src =
     (case shape a of
        [] \<Rightarrow> Inl IndexError
      | n # ds \<Rightarrow>
          if i < n then
            (case broadcast_to ds src of
               None \<Rightarrow> Inl ValueError
             | Some ys \<Rightarrow> Inr (a\<lparr>elems := concat ((rows a)[i := ys])\<rparr>))
          else Inl IndexError)"

subsection \<open>Frames, sequences and the dataset\<close>

text \<open>
  A frame has the attributes the builders read. \<open>com\<close> is a Python sequence of numbers,
  indexed at 2.
\<close>

record Frame =
  color :: ndarray
  dpt :: ndarray
  gtorig :: ndarray
  gt3Dcrop :: ndarray
  com :: "real list"

text \<open>
  \<open>NamedImgSequence\<close>: \<open>config\<close> is a dict; the builders read
  \<open>config['cube'][2]\<close>.
\<close>

record NamedImgSequence =
  name :: string
  data :: "Frame list"
  config :: "string \<rightharpoonup> real list"

text \<open>
  The attributes of a \<open>Dataset\<close> object: \<open>localCache\<close>, \<open>_imgSeqs\<close>, and the dicts
  \<open>_imgStacks\<close>, \<open>_dptStacks\<close> and \<open>_labelStacks\<close>, keyed by sequence name.
\<close>

record Dataset =
  localCache :: bool
  imgSeqs :: "NamedImgSequence list"
  imgStacks :: "string \<rightharpoonup> ndarray"
  dptStacks :: "string \<rightharpoonup> ndarray"
  labelStacks :: "string \<rightharpoonup> ndarray"

text \<open>\<open>__init__(imgSeqs=None, localCache=True)\<close>, lines 47-59.\<close>

definition Dataset_init :: "NamedImgSequence list option \<Rightarrow> bool \<Rightarrow> Dataset" where
  "Dataset_init seqs lc =
     \<lparr>localCache = lc,
      imgSeqs = (case seqs of None \<Rightarrow> [] | Some v \<Rightarrow> v),
      imgStacks = Map.empty, dptStacks = Map.empty, labelStacks = Map.empty\<rparr>"

text \<open>
  The scan \<open>for seq in self._imgSeqs: if seq.name == seqName\<close> of lines 66-68, 79-82 and
  117-120: the first sequence of that name, if any.
\<close>

fun findSeq :: "NamedImgSequence list \<Rightarrow> string \<Rightarrow> NamedImgSequence option" where
  "findSeq [] seqName = None"
| "findSeq (seq # seqs) seqName = (if name seq = seqName then Some seq else findSeq seqs seqName)"

text \<open>\<open>imgSeq\<close>, lines 65-69. \<open>None\<close> is the empty list the method returns on a miss.\<close>

definition imgSeq :: "Dataset \<Rightarrow> string \<Rightarrow> NamedImgSequence option" where
  "imgSeq self seqName = findSeq (imgSeqs self) seqName"

text \<open>The setter of \<open>imgSeqs\<close>, lines 71-75.\<close>

definition imgSeqs_setter :: "Dataset \<Rightarrow> NamedImgSequence list \<Rightarrow> Dataset" where
  "imgSeqs_setter self v = self\<lparr>imgSeqs := v, imgStacks := Map.empty, dptStacks := Map.empty\<rparr>"

subsection \<open>The per-frame computations\<close>

text \<open>\<open>seq[2]\<close> on a Python sequence of numbers.\<close>

definition index2 :: "real list \<Rightarrow> error + real" where
  "index2 xs = (if 2 < length xs then Inr (xs ! 2) else Inl IndexError)"

text \<open>\<open>imgSeq.config['cube'][2]\<close>.\<close>

definition cube2 :: "NamedImgSequence \<Rightarrow> error + real" where
  "cube2 sq = (case config sq ''cube'' of None \<Rightarrow> Inl KeyError | Some c \<Rightarrow> index2 c)"

text \<open>Lines 96-102: the normalized color image of a frame.\<close>

definition imgRGB :: "bool \<Rightarrow> Frame \<Rightarrow> ndarray" where
  "imgRGB normZeroOne fr =
     (if normZeroOne then nd_map (\<lambda>x. x / 256) (color fr)
      else nd_map (\<lambda>x. x / 128) (nd_map (\<lambda>x. x - 128) (color fr)))"

text \<open>
  Lines 134-143: the normalized depth image of a frame, in float32.
  \<^item> \<open>numpy.asarray(dpt.copy(), 'float32')\<close> rounds every pixel to float32;
  \<^item> \<open>imgD[imgD == 0] = com[2] + cube[2] / 2.\<close> tests the rounded pixels; the right-hand
    side is Python float arithmetic (a division and an addition, each rounded to
    float64) and is rounded to float32 when it is stored;
  \<^item> \<open>imgD -= c\<close> and \<open>imgD /= c\<close> with a Python number \<open>c\<close> are float32 operations:
    \<open>c\<close> is converted to float32 and the result of each element is rounded to float32.
\<close>

definition imgD :: "bool \<Rightarrow> NamedImgSequence \<Rightarrow> Frame \<Rightarrow> error + ndarray" where
  "imgD normZeroOne sq fr =
     (case index2 (com fr) of
        Inl e \<Rightarrow> Inl e
      | Inr c2 \<Rightarrow>
          (case cube2 sq of
             Inl e \<Rightarrow> Inl e
           | Inr cu \<Rightarrow>
               let half = f64 (cu / 2);
                   filled = nd_map (\<lambda>x. if x = 0 then f32 (f64 (c2 + half)) else x)
                              (nd_map f32 (dpt fr))
               in
               if normZeroOne then
                 Inr (nd_map (\<lambda>x. f32 (x / f32 cu))
                        (nd_map (\<lambda>x. f32 (x - f32 (f64 (c2 - half)))) filled))
               else
                 Inr (nd_map (\<lambda>x. f32 (x / f32 half))
                        (nd_map (\<lambda>x. f32 (x - f32 c2)) filled))))"

text \<open>
  The right-hand side of lines 105 and 146:
  \<open>numpy.clip(gt3Dcrop / (config['cube'][2] / 2.), -1, 1)\<close>.
\<close>

definition label :: "NamedImgSequence \<Rightarrow> Frame \<Rightarrow> error + ndarray" where
  "label sq fr =
     (case cube2 sq of
        Inl e \<Rightarrow> Inl e
      | Inr cu \<Rightarrow> Inr (nd_map (\<lambda>x. clip x (- 1) 1) (nd_map (\<lambda>x. x / (cu / 2)) (gt3Dcrop fr))))"

subsection \<open>The loops over the frames\<close>

text \<open>
  The loops \<open>for i in xrange(numImgs)\<close> of lines 95-105 and 133-146 have one body up to
  the image of the frame, which is the parameter \<open>img\<close>: the image is computed and
  assigned to \<open>imgStack[i]\<close>, then the label is computed and assigned to
  \<open>labelStack[i]\<close>. The recursion runs over the frames \<open>data[i], data[i+1], ...\<close> that
  are left.
\<close>

fun stackLoop ::
  "(Frame \<Rightarrow> error + ndarray) \<Rightarrow> NamedImgSequence \<Rightarrow> Frame list \<Rightarrow> nat \<Rightarrow>
     ndarray \<times> ndarray \<Rightarrow> error + ndarray \<times> ndarray" where
  "stackLoop img sq [] i acc = Inr acc"
| "stackLoop img sq (fr # frs) i (imgStack, labelStack) =
     (case img fr of
        Inl e \<Rightarrow> Inl e
      | Inr im \<Rightarrow>
          (case setitem imgStack i im of
             Inl e \<Rightarrow> Inl e
           | Inr imgStack' \<Rightarrow>
               (case label sq fr of
                  Inl e \<Rightarrow> Inl e
                | Inr lb \<Rightarrow>
                    (case setitem labelStack i lb of
                       Inl e \<Rightarrow> Inl e
                     | Inr labelStack' \<Rightarrow>
                         stackLoop img sq frs (Suc i) (imgStack', labelStack')))))"

text \<open>
  Lines 88-105: the stacks of a sequence, from scratch. \<open>data[0]\<close> raises IndexError on
  an empty frame list; unpacking a shape of the wrong rank raises ValueError.
\<close>

definition computeRGB :: "NamedImgSequence \<Rightarrow> bool \<Rightarrow> error + ndarray \<times> ndarray" where
  "computeRGB sq normZeroOne =
     (let numImgs = length (data sq) in
      case data sq of
        [] \<Rightarrow> Inl IndexError
      | fr0 # _ \<Rightarrow>
          (case shape (color fr0) of
             [h, w, _] \<Rightarrow>
               (case shape (gtorig fr0) of
                  [j, d] \<Rightarrow>
                    stackLoop (\<lambda>fr. Inr (imgRGB normZeroOne fr)) sq (data sq) 0
                      (zeros [numImgs, 3, h, w], zeros [numImgs, j, d])
                | _ \<Rightarrow> Inl ValueError)
           | _ \<Rightarrow> Inl ValueError))"

text \<open>Lines 126-146, for the depth images.\<close>

definition computeDepth :: "NamedImgSequence \<Rightarrow> bool \<Rightarrow> error + ndarray \<times> ndarray" where
  "computeDepth sq normZeroOne =
     (let numImgs = length (data sq) in
      case data sq of
        [] \<Rightarrow> Inl IndexError
      | fr0 # _ \<Rightarrow>
          (case shape (dpt fr0) of
             [h, w] \<Rightarrow>
               (case shape (gtorig fr0) of
                  [j, d] \<Rightarrow>
                    stackLoop (imgD normZeroOne sq) sq (data sq) 0
                      (zeros [numImgs, 1, h, w], zeros [numImgs, j, d])
                | _ \<Rightarrow> Inl ValueError)
           | _ \<Rightarrow> Inl ValueError))"

subsection \<open>The stack builders\<close>

text \<open>
  A builder returns the empty list (\<open>None\<close>) or a pair of stacks, or raises; it may
  store into the caches, so the object is returned with the outcome.
\<close>

type_synonym outcome = "error + (ndarray \<times> ndarray) option"

text \<open>
  The last line of a builder, \<open>return cache[seqName], self._labelStacks[seqName]\<close>: a
  missing key raises KeyError.
\<close>

definition cached ::
  "(string \<rightharpoonup> ndarray) \<Rightarrow> (string \<rightharpoonup> ndarray) \<Rightarrow> string \<Rightarrow> outcome" where
  "cached stacks labels seqName =
     (case stacks seqName of
        None \<Rightarrow> Inl KeyError
      | Some st \<Rightarrow>
          (case labels seqName of
             None \<Rightarrow> Inl KeyError
           | Some lb \<Rightarrow> Inr (Some (st, lb))))"

text \<open>\<open>imgStackRGBOnly\<close>, lines 77-113.\<close>

definition imgStackRGBOnly :: "Dataset \<Rightarrow> string \<Rightarrow> bool \<Rightarrow> outcome \<times> Dataset" where
  "imgStackRGBOnly self seqName normZeroOne =
     (case findSeq (imgSeqs self) seqName of
        None \<Rightarrow> (Inr None, self)
      | Some sq \<Rightarrow>
          if imgStacks self seqName = None then
            (case computeRGB sq normZeroOne of
               Inl e \<Rightarrow> (Inl e, self)
             | Inr (imgStack, labelStack) \<Rightarrow>
                 if localCache self then
                   let self' = self\<lparr>imgStacks := (imgStacks self)(seqName \<mapsto> imgStack),
                                    labelStacks := (labelStacks self)(seqName \<mapsto> labelStack)\<rparr>
                   in (cached (imgStacks self') (labelStacks self') seqName, self')
                 else (Inr (Some (imgStack, labelStack)), self))
          else (cached (imgStacks self) (labelStacks self) seqName, self))"

text \<open>\<open>imgStackDepthOnly\<close>, lines 115-154.\<close>

definition imgStackDepthOnly :: "Dataset \<Rightarrow> string \<Rightarrow> bool \<Rightarrow> outcome \<times> Dataset" where
  "imgStackDepthOnly self seqName normZeroOne =
     (case findSeq (imgSeqs self) seqName of
        None \<Rightarrow> (Inr None, self)
      | Some sq \<Rightarrow>
          if dptStacks self seqName = None then
            (case computeDepth sq normZeroOne of
               Inl e \<Rightarrow> (Inl e, self)
             | Inr (imgStack, labelStack) \<Rightarrow>
                 if localCache self then
                   let self' = self\<lparr>dptStacks := (dptStacks self)(seqName \<mapsto> imgStack),
                                    labelStacks := (labelStacks self)(seqName \<mapsto> labelStack)\<rparr>
                   in (cached (dptStacks self') (labelStacks self') seqName, self')
                 else (Inr (Some (imgStack, labelStack)), self))
          else (cached (dptStacks self) (labelStacks self) seqName, self))"

subsection \<open>Example data\<close>

text \<open>
  Two sequences of one frame each. The frame of \<open>ex_seq\<close> has a 2 x 2 color image, the
  frame of \<open>ex_seq3\<close> a 3 x 3 one; both have a 1 x 2 depth image with a hole, one joint,
  and a cube of side 4 around depth 10. The arrays named after them are the stacks the
  builders compute.
\<close>

definition ex_frame :: Frame where
  "ex_frame = \<lparr>color = \<lparr>shape = [2, 2, 3], elems = [0, 20, 40, 60, 80, 100, 120, 140, 160, 180, 200, 255]\<rparr>,
     dpt = \<lparr>shape = [1, 2], elems = [0, 10]\<rparr>,
     gtorig = \<lparr>shape = [1, 3], elems = [0, 0, 0]\<rparr>,
     gt3Dcrop = \<lparr>shape = [1, 3], elems = [1, - 3, 5]\<rparr>,
     com = [0, 0, 10]\<rparr>"

definition ex_seq :: NamedImgSequence where
  "ex_seq = \<lparr>name = ''a'', data = [ex_frame], config = [''cube'' \<mapsto> [4, 4, 4]]\<rparr>"

definition ex_dataset :: Dataset where
  "ex_dataset = Dataset_init (Some [ex_seq]) True"

definition ex_frame3 :: Frame where
  "ex_frame3 = \<lparr>color = \<lparr>shape = [3, 3, 3],
        elems = [0, 255, 17, 34, 90, 201, 128, 64, 5, 250, 33, 77, 140, 9,
                 220, 61, 180, 3, 99, 45, 210, 16, 150, 71, 240, 28, 113]\<rparr>,
     dpt = \<lparr>shape = [1, 2], elems = [0, 10]\<rparr>,
     gtorig = \<lparr>shape = [1, 3], elems = [0, 0, 0]\<rparr>,
     gt3Dcrop = \<lparr>shape = [1, 3], elems = [1, - 3, 5]\<rparr>,
     com = [0, 0, 10]\<rparr>"

definition ex_seq3 :: NamedImgSequence where
  "ex_seq3 = \<lparr>name = ''c'', data = [ex_frame3], config = [''cube'' \<mapsto> [4, 4, 4]]\<rparr>"

definition ex_dataset3 :: Dataset where
  "ex_dataset3 = Dataset_init (Some [ex_seq3]) True"

definition ex_empty_seq :: NamedImgSequence where
  "ex_empty_seq = \<lparr>name = ''a'', data = [], config = [''cube'' \<mapsto> [4, 4, 4]]\<rparr>"

definition ex_other_seq :: NamedImgSequence where
  "ex_other_seq = \<lparr>name = ''b'', data = [], config = Map.empty\<rparr>"

definition ex_label :: ndarray where
  "ex_label = \<lparr>shape = [1, 1, 3], elems = [1 / 2, - 1, 1]\<rparr>"

definition ex_depth_False :: ndarray where
  "ex_depth_False = \<lparr>shape = [1, 1, 1, 2], elems = [1, 0]\<rparr>"


definition ex_rgb_True :: ndarray where
  "ex_rgb_True = \<lparr>shape = [1, 3, 3, 3],
     elems = [0, 255 / 256, 17 / 256, 34 / 256, 90 / 256, 201 / 256, 128 / 256, 64 / 256, 5 / 256,
              250 / 256, 33 / 256, 77 / 256, 140 / 256, 9 / 256, 220 / 256, 61 / 256, 180 / 256, 3 / 256,
              99 / 256, 45 / 256, 210 / 256, 16 / 256, 150 / 256, 71 / 256, 240 / 256, 28 / 256, 113 / 256]\<rparr>"

definition ex_rgb_False :: ndarray where
  "ex_rgb_False = \<lparr>shape = [1, 3, 3, 3],
     elems = [- 1, 127 / 128, - 111 / 128, - 94 / 128, - 38 / 128, 73 / 128, 0, - 64 / 128, - 123 / 128,
              122 / 128, - 95 / 128, - 51 / 128, 12 / 128, - 119 / 128, 92 / 128, - 67 / 128, 52 / 128, - 125 / 128,
              - 29 / 128, - 83 / 128, 82 / 128, - 112 / 128, 22 / 128, - 57 / 128, 112 / 128, - 100 / 128, - 15 / 128]\<rparr>"

text \<open>
  A second sequence named \<open>c\<close>, with another depth image and other joint positions, the
  stacks computed from it, and a collection that holds both sequences of that name.
\<close>

definition ex_frame3b :: Frame where
  "ex_frame3b = ex_frame3\<lparr>dpt := \<lparr>shape = [1, 2], elems = [0, 9]\<rparr>,
     gt3Dcrop := \<lparr>shape = [1, 3], elems = [3, 1, - 7]\<rparr>\<rparr>"

definition ex_seq3b :: NamedImgSequence where
  "ex_seq3b = \<lparr>name = ''c'', data = [ex_frame3b], config = [''cube'' \<mapsto> [4, 4, 4]]\<rparr>"

definition ex_label_b :: ndarray where
  "ex_label_b = \<lparr>shape = [1, 1, 3], elems = [1, 1 / 2, - 1]\<rparr>"

definition ex_depth_b :: ndarray where
  "ex_depth_b = \<lparr>shape = [1, 1, 1, 2], elems = [1, - 1 / 2]\<rparr>"

definition ex_dataset_dup :: Dataset where
  "ex_dataset_dup = Dataset_init (Some [ex_other_seq, ex_seq3, ex_seq3b]) True"

text \<open>
  The property \<open>imgSeqs\<close> returns the list of the object itself (line 63), so a caller can
  replace an element of the collection in place, which does not run the setter and
  leaves the caches as they are. These are the objects after one request for \<open>c\<close> and
  such a replacement of \<open>ex_seq3\<close> by \<open>ex_seq3b\<close>.
\<close>

definition ex_after_RGB :: Dataset where
  "ex_after_RGB = (snd (imgStackRGBOnly ex_dataset3 ''c'' True))\<lparr>imgSeqs := [ex_seq3b]\<rparr>"

definition ex_after_Depth :: Dataset where
  "ex_after_Depth = (snd (imgStackDepthOnly ex_dataset3 ''c'' False))\<lparr>imgSeqs := [ex_seq3b]\<rparr>"






section \<open>Properties\<close>

subsection \<open>The scan for a name\<close>

lemma findSeq_None_iff: "findSeq seqs n = None \<longleftrightarrow> n \<notin> name ` set seqs"
  by (induction seqs) auto

lemma findSeq_first:
  "n \<notin> name ` set pre \<Longrightarrow> name q = n \<Longrightarrow> findSeq (pre @ q # post) n = Some q"
  by (induction pre) auto

lemma findSeq_name: "findSeq seqs n = Some q \<Longrightarrow> name q = n"
  by (induction seqs) (auto split: if_splits)

subsection \<open>A builder on a cache hit and on a cache miss\<close>

lemma cached_upd:
  "cached (m(n \<mapsto> a)) (l(n \<mapsto> b)) n = Inr (Some (a, b))"
  by (simp add: cached_def)


lemma RGB_hit:
  assumes "findSeq (imgSeqs self) n = Some sq" and "imgStacks self n = Some a"
  shows "imgStackRGBOnly self n nz = (cached (imgStacks self) (labelStacks self) n, self)"
  using assms by (simp add: imgStackRGBOnly_def)

lemma RGB_miss:
  assumes "findSeq (imgSeqs self) n = Some sq" and "imgStacks self n = None"
  shows "imgStackRGBOnly self n nz =
    (case computeRGB sq nz of
       Inl e \<Rightarrow> (Inl e, self)
     | Inr st \<Rightarrow>
         (Inr (Some st),
          if localCache self
          then self\<lparr>imgStacks := (imgStacks self)(n \<mapsto> fst st),
                    labelStacks := (labelStacks self)(n \<mapsto> snd st)\<rparr>
          else self))"
  using assms
  by (simp add: imgStackRGBOnly_def Let_def cached_upd split: sum.split prod.split)

lemma Depth_hit:
  assumes "findSeq (imgSeqs self) n = Some sq" and "dptStacks self n = Some a"
  shows "imgStackDepthOnly self n nz = (cached (dptStacks self) (labelStacks self) n, self)"
  using assms by (simp add: imgStackDepthOnly_def)

lemma Depth_miss:
  assumes "findSeq (imgSeqs self) n = Some sq" and "dptStacks self n = None"
  shows "imgStackDepthOnly self n nz =
    (case computeDepth sq nz of
       Inl e \<Rightarrow> (Inl e, self)
     | Inr st \<Rightarrow>
         (Inr (Some st),
          if localCache self
          then self\<lparr>dptStacks := (dptStacks self)(n \<mapsto> fst st),
                    labelStacks := (labelStacks self)(n \<mapsto> snd st)\<rparr>
          else self))"
  using assms
  by (simp add: imgStackDepthOnly_def Let_def cached_upd split: sum.split prod.split)





lemma RGB_served:
  assumes "findSeq (imgSeqs self) n = Some sq"
    and "imgStacks self n = Some i" and "labelStacks self n = Some l"
  shows "imgStackRGBOnly self n nz = (Inr (Some (i, l)), self)"
  using RGB_hit [OF assms(1,2), of nz] assms(2,3) by (simp add: cached_def)

lemma Depth_served:
  assumes "findSeq (imgSeqs self) n = Some sq"
    and "dptStacks self n = Some i" and "labelStacks self n = Some l"
  shows "imgStackDepthOnly self n nz = (Inr (Some (i, l)), self)"
  using Depth_hit [OF assms(1,2), of nz] assms(2,3) by (simp add: cached_def)

subsection \<open>Blocks and broadcasting\<close>

lemma length_chunks: "length (chunks n k xs) = n"
  by (induction n arbitrary: xs) auto

lemma set_chunks: "c \<in> set (chunks n k xs) \<Longrightarrow> set c \<subseteq> set xs"
proof (induction n arbitrary: xs)
  case 0
  then show ?case by simp
next
  case (Suc n)
  from Suc.prems have "c = take k xs \<or> c \<in> set (chunks n k (drop k xs))" by simp
  then show ?case
  proof
    assume "c = take k xs"
    then show ?thesis by (simp add: set_take_subset)
  next
    assume "c \<in> set (chunks n k (drop k xs))"
    then have "set c \<subseteq> set (drop k xs)" by (rule Suc.IH)
    then show ?thesis using set_drop_subset [of k xs] by blast
  qed
qed

lemma length_chunk:
  "length xs = n * k \<Longrightarrow> c \<in> set (chunks n k xs) \<Longrightarrow> length c = k"
proof (induction n arbitrary: xs)
  case 0
  then show ?case by simp
next
  case (Suc n)
  have l: "length (drop k xs) = n * k" using Suc.prems(1) by simp
  from Suc.prems(2) have "c = take k xs \<or> c \<in> set (chunks n k (drop k xs))" by simp
  then show ?case
  proof
    assume "c = take k xs"
    then show ?thesis using Suc.prems(1) by simp
  next
    assume "c \<in> set (chunks n k (drop k xs))"
    with l show ?thesis by (rule Suc.IH)
  qed
qed

lemma concat_chunks: "length xs = n * k \<Longrightarrow> concat (chunks n k xs) = xs"
proof (induction n arbitrary: xs)
  case 0
  then show ?case by simp
next
  case (Suc n)
  have "length (drop k xs) = n * k" using Suc.prems by simp
  then have "concat (chunks n k (drop k xs)) = drop k xs" by (rule Suc.IH)
  then show ?case by simp
qed

lemma chunks_concat:
  "length zs = n \<Longrightarrow> \<forall>z\<in>set zs. length z = k \<Longrightarrow> chunks n k (concat zs) = zs"
proof (induction zs arbitrary: n)
  case Nil
  then show ?case by simp
next
  case (Cons z zs)
  then obtain m where n: "n = Suc m" and m: "length zs = m" by (cases n) auto
  have z: "length z = k" using Cons.prems(2) by simp
  have "chunks m k (concat zs) = zs" using m Cons.prems(2) by (intro Cons.IH) simp_all
  then show ?case using n z by simp
qed

lemma set_bcast_elems: "set (bcast_elems ss ds xs) \<subseteq> set xs"
proof (induction ss ds xs rule: bcast_elems.induct)
  case (1 s ss d ds xs)
  show ?case
  proof (cases "s = d")
    case True
    have "set (bcast_elems ss ds c) \<subseteq> set xs" if "c \<in> set (chunks s (prod_list ss) xs)" for c
      using "1.IH"(1) [OF True that] set_chunks [OF that] by blast
    then show ?thesis using True by auto
  next
    case False
    then show ?thesis using "1.IH"(2) [OF False] by (cases d) auto
  qed
qed simp_all

lemma bcast_elems_same: "length xs = prod_list ss \<Longrightarrow> bcast_elems ss ss xs = xs"
proof (induction ss arbitrary: xs)
  case Nil
  then show ?case by simp
next
  case (Cons s ss)
  have l: "length xs = s * prod_list ss" using Cons.prems by simp
  have "map (bcast_elems ss ss) (chunks s (prod_list ss) xs) = chunks s (prod_list ss) xs"
    by (rule map_idI) (simp add: Cons.IH length_chunk [OF l])
  then show ?case by (simp add: concat_chunks [OF l])
qed

lemma length_bcast_elems:
  "bcast_ok ss ds \<Longrightarrow> length xs = prod_list ss \<Longrightarrow>
     length (bcast_elems ss ds xs) = prod_list ds"
proof (induction ss ds arbitrary: xs rule: bcast_ok.induct)
  case 1
  then show ?case by simp
next
  case (2 s ss d ds)
  have ok: "bcast_ok ss ds" using "2.prems"(1) by simp
  show ?case
  proof (cases "s = d")
    case True
    have l: "length xs = s * prod_list ss" using "2.prems"(2) by simp
    have "length (bcast_elems ss ds c) = prod_list ds"
      if "c \<in> set (chunks s (prod_list ss) xs)" for c
      using "2.IH" [OF ok] length_chunk [OF l that] by simp
    then have "map length (map (bcast_elems ss ds) (chunks s (prod_list ss) xs))
        = map (\<lambda>c. prod_list ds) (chunks s (prod_list ss) xs)"
      by simp
    then have "map length (map (bcast_elems ss ds) (chunks s (prod_list ss) xs))
        = replicate s (prod_list ds)"
      by (simp only: map_replicate_const length_chunks)
    then show ?thesis using True by (simp add: length_concat sum_list_replicate)
  next
    case False
    then have s: "s = 1" using "2.prems"(1) by simp
    then have "length xs = prod_list ss" using "2.prems"(2) by simp
    then have "length (bcast_elems ss ds xs) = prod_list ds" by (rule "2.IH" [OF ok])
    then show ?thesis using False by (simp add: length_concat sum_list_replicate)
  qed
qed simp_all

lemma bcast_ok_same: "bcast_ok ss ss"
  by (induction ss) simp_all

lemma strip_ones_short: "length ss \<le> r \<Longrightarrow> strip_ones r ss = ss"
  by (cases ss) simp_all

lemma prod_list_strip_ones: "prod_list (strip_ones r ss) = prod_list ss"
  by (induction ss) simp_all

lemma length_strip_ones: "length (strip_ones r ss) \<le> length ss"
  by (induction ss) (simp_all add: le_SucI)

lemma broadcast_to_set:
  assumes "broadcast_to ds a = Some ys"
  shows "set ys \<subseteq> set (elems a)"
proof -
  from assms obtain ss' where "ys = bcast_elems ss' ds (elems a)"
    by (auto simp: broadcast_to_def Let_def split: if_splits)
  then show ?thesis by (simp add: set_bcast_elems)
qed

lemma broadcast_to_length:
  assumes "broadcast_to ds a = Some ys" and "wf_ndarray a"
  shows "length ys = prod_list ds"
proof -
  define ss where "ss = strip_ones (length ds) (shape a)"
  define ss' where "ss' = replicate (length ds - length ss) 1 @ ss"
  from assms(1) have ok: "bcast_ok ss' ds" and ys: "ys = bcast_elems ss' ds (elems a)"
    by (auto simp: broadcast_to_def Let_def ss_def ss'_def split: if_splits)
  have "prod_list ss' = prod_list (shape a)"
    by (simp add: ss'_def ss_def prod_list_strip_ones)
  then have "length (elems a) = prod_list ss'"
    using assms(2) by (simp add: wf_ndarray_def)
  with ok show ?thesis unfolding ys by (rule length_bcast_elems)
qed

lemma broadcast_to_padded:
  assumes "wf_ndarray a" and "ds = replicate m 1 @ shape a"
  shows "broadcast_to ds a = Some (elems a)"
proof -
  have s: "strip_ones (length ds) (shape a) = shape a"
    by (rule strip_ones_short) (simp add: assms(2))
  have l: "length (elems a) = prod_list ds"
    using assms by (simp add: wf_ndarray_def)
  have len: "length ds - length (shape a) = m" "\<not> length ds < length (shape a)"
    by (simp_all add: assms(2))
  have ds: "replicate m 1 @ shape a = ds" by (simp add: assms(2))
  show ?thesis
    unfolding broadcast_to_def s Let_def len ds
    using l len by (simp add: bcast_ok_same bcast_elems_same)
qed

lemma broadcast_to_same:
  "wf_ndarray a \<Longrightarrow> shape a = ds \<Longrightarrow> broadcast_to ds a = Some (elems a)"
  using broadcast_to_padded [of a ds 0] by simp


lemma setitem_Inr:
  assumes "setitem a i v = Inr a'"
  obtains n ds ys where "shape a = n # ds" and "i < n" and "broadcast_to ds v = Some ys"
    and "a' = a\<lparr>elems := concat ((rows a)[i := ys])\<rparr>"
  using assms
  by (auto simp: setitem_def split: list.splits if_splits option.splits)

lemma setitem_shape: "setitem a i v = Inr a' \<Longrightarrow> shape a' = shape a"
  by (erule setitem_Inr) simp

lemma set_rows: "r \<in> set (rows a) \<Longrightarrow> set r \<subseteq> set (elems a)"
  by (cases "shape a") (auto simp: rows_def dest: set_chunks)

lemma setitem_set:
  assumes "setitem a i v = Inr a'"
  shows "set (elems a') \<subseteq> set (elems a) \<union> set (elems v)"
proof -
  from assms obtain n ds ys where "shape a = n # ds" and "i < n"
    and ys: "broadcast_to ds v = Some ys"
    and a': "a' = a\<lparr>elems := concat ((rows a)[i := ys])\<rparr>"
    by (rule setitem_Inr)
  have "set r \<subseteq> set (elems a) \<union> set (elems v)" if "r \<in> set ((rows a)[i := ys])" for r
  proof -
    from that set_update_subset_insert [of "rows a" i ys]
    have "r = ys \<or> r \<in> set (rows a)" by auto
    then show ?thesis using broadcast_to_set [OF ys] set_rows [of r a] by blast
  qed
  then show ?thesis unfolding a' by auto
qed

lemma wf_rows:
  assumes "wf_ndarray a" and "shape a = n # ds"
  shows "length (rows a) = n" and "\<forall>r\<in>set (rows a). length r = prod_list ds"
proof -
  have l: "length (elems a) = n * prod_list ds"
    using assms by (simp add: wf_ndarray_def)
  show "length (rows a) = n" by (simp add: rows_def assms(2) length_chunks)
  show "\<forall>r\<in>set (rows a). length r = prod_list ds"
    using length_chunk [OF l] by (simp add: rows_def assms(2))
qed

lemma setitem_rows:
  assumes "setitem a i v = Inr a'" and "wf_ndarray a" and "wf_ndarray v"
  shows "wf_ndarray a' \<and> i < length (rows a)
    \<and> (\<exists>ys. broadcast_to (tl (shape a)) v = Some ys \<and> rows a' = (rows a)[i := ys])"
proof -
  from assms(1) obtain n ds ys where sh: "shape a = n # ds" and i: "i < n"
    and ys: "broadcast_to ds v = Some ys"
    and a': "a' = a\<lparr>elems := concat ((rows a)[i := ys])\<rparr>"
    by (rule setitem_Inr)
  note R = wf_rows [OF assms(2) sh]
  have ly: "length ys = prod_list ds" using ys assms(3) by (rule broadcast_to_length)
  have len: "length ((rows a)[i := ys]) = n" using R(1) by simp
  have all: "\<forall>r\<in>set ((rows a)[i := ys]). length r = prod_list ds"
  proof
    fix r assume "r \<in> set ((rows a)[i := ys])"
    with set_update_subset_insert [of "rows a" i ys] have "r = ys \<or> r \<in> set (rows a)" by auto
    then show "length r = prod_list ds" using ly R(2) by auto
  qed
  have rows': "rows a' = (rows a)[i := ys]"
    unfolding a' by (simp add: rows_def [of "a\<lparr>elems := _\<rparr>"] sh chunks_concat [OF len all])
  have "map length ((rows a)[i := ys]) = replicate n (prod_list ds)"
    using all len by (metis map_replicate_const map_eq_conv)
  then have "length (elems a') = n * prod_list ds"
    unfolding a' by (simp add: length_concat sum_list_replicate)
  then have "wf_ndarray a'" by (simp add: wf_ndarray_def a' sh)
  then show ?thesis using i R(1) ys rows' sh by simp
qed

subsection \<open>The loop over the frames\<close>

lemma stackLoop_Cons_Inr:
  assumes "stackLoop img sq (fr # frs) i (a, b) = Inr (a', b')"
  obtains im a1 lb b1 where "img fr = Inr im" and "setitem a i im = Inr a1"
    and "label sq fr = Inr lb" and "setitem b i lb = Inr b1"
    and "stackLoop img sq frs (Suc i) (a1, b1) = Inr (a', b')"
  using assms by (auto split: sum.splits)

lemma stackLoop_shape:
  "stackLoop img sq frs i (a, b) = Inr (a', b') \<Longrightarrow> shape a' = shape a \<and> shape b' = shape b"
proof (induction frs arbitrary: i a b)
  case Nil
  then show ?case by simp
next
  case (Cons fr frs)
  from Cons.prems obtain im a1 lb b1 where
    s: "setitem a i im = Inr a1" "setitem b i lb = Inr b1"
    and r: "stackLoop img sq frs (Suc i) (a1, b1) = Inr (a', b')"
    by (rule stackLoop_Cons_Inr)
  show ?case using Cons.IH [OF r] setitem_shape [OF s(1)] setitem_shape [OF s(2)] by simp
qed

lemma stackLoop_elems_img:
  assumes "stackLoop img sq frs i (a, b) = Inr (a', b')"
    and "\<forall>x\<in>set (elems a). P x"
    and "\<And>fr im x. fr \<in> set frs \<Longrightarrow> img fr = Inr im \<Longrightarrow> x \<in> set (elems im) \<Longrightarrow> P x"
  shows "\<forall>x\<in>set (elems a'). P x"
  using assms
proof (induction frs arbitrary: i a b)
  case Nil
  then show ?case by simp
next
  case (Cons fr frs)
  from Cons.prems(1) obtain im a1 lb b1 where
    im: "img fr = Inr im" and s: "setitem a i im = Inr a1"
    and r: "stackLoop img sq frs (Suc i) (a1, b1) = Inr (a', b')"
    by (rule stackLoop_Cons_Inr)
  have "\<forall>x\<in>set (elems im). P x" using Cons.prems(3) [OF _ im] by simp
  then have "\<forall>x\<in>set (elems a1). P x"
    using setitem_set [OF s] Cons.prems(2) by blast
  then show ?case using r Cons.prems(3) by (intro Cons.IH [OF r]) auto
qed


lemma stackLoop_rows_img:
  assumes "stackLoop img sq frs i (a, b) = Inr (a', b')"
    and "wf_ndarray a"
    and "\<And>fr im. fr \<in> set frs \<Longrightarrow> img fr = Inr im \<Longrightarrow> wf_ndarray im"
  shows "wf_ndarray a' \<and> (\<forall>m<i. getitem a' m = getitem a m)
    \<and> (\<forall>j<length frs. \<exists>im ys. img (frs ! j) = Inr im
          \<and> broadcast_to (tl (shape a)) im = Some ys \<and> getitem a' (i + j) = ys)"
  using assms
proof (induction frs arbitrary: i a b)
  case Nil
  then show ?case by simp
next
  case (Cons fr frs)
  from Cons.prems(1) obtain im a1 lb b1 where
    im: "img fr = Inr im" and s: "setitem a i im = Inr a1"
    and r: "stackLoop img sq frs (Suc i) (a1, b1) = Inr (a', b')"
    by (rule stackLoop_Cons_Inr)
  have wim: "wf_ndarray im" using Cons.prems(3) [OF _ im] by simp
  from setitem_rows [OF s Cons.prems(2) wim] obtain ys where
    w1: "wf_ndarray a1" and i: "i < length (rows a)"
    and ys: "broadcast_to (tl (shape a)) im = Some ys" and rows1: "rows a1 = (rows a)[i := ys]"
    by blast
  have sh: "shape a1 = shape a" using s by (rule setitem_shape)
  have IH: "wf_ndarray a' \<and> (\<forall>m<Suc i. getitem a' m = getitem a1 m)
    \<and> (\<forall>j<length frs. \<exists>im ys. img (frs ! j) = Inr im
          \<and> broadcast_to (tl (shape a1)) im = Some ys \<and> getitem a' (Suc i + j) = ys)"
    using r w1 Cons.prems(3) by (intro Cons.IH) auto
  have old: "getitem a' m = getitem a m" if "m < i" for m
    using IH that by (simp add: getitem_def rows1)
  have here: "getitem a' i = ys"
    using IH i by (simp add: getitem_def rows1)
  have new: "\<exists>im ys. img ((fr # frs) ! j) = Inr im
      \<and> broadcast_to (tl (shape a)) im = Some ys \<and> getitem a' (i + j) = ys"
    if "j < length (fr # frs)" for j
  proof (cases j)
    case 0
    then show ?thesis using im ys here by simp
  next
    case (Suc j')
    then have "j' < length frs" using that by simp
    with IH show ?thesis using Suc sh by simp
  qed
  show ?case using IH old new by blast
qed


lemma wf_zeros: "wf_ndarray (zeros shp)"
  by (simp add: wf_ndarray_def zeros_def)

lemma wf_nd_map: "wf_ndarray (nd_map f a) = wf_ndarray a"
  by (simp add: wf_ndarray_def nd_map_def)

lemma shape_nd_map: "shape (nd_map f a) = shape a"
  by (simp add: nd_map_def)

lemma elems_nd_map: "elems (nd_map f a) = map f (elems a)"
  by (simp add: nd_map_def)

subsection \<open>The stacks computed from scratch\<close>

lemma computeDepth_Inr:
  assumes "computeDepth sq nz = Inr (a', b')"
  obtains fr0 rest h w j d where "data sq = fr0 # rest"
    and "shape (dpt fr0) = [h, w]" and "shape (gtorig fr0) = [j, d]"
    and "stackLoop (imgD nz sq) sq (data sq) 0
           (zeros [length (data sq), 1, h, w], zeros [length (data sq), j, d]) = Inr (a', b')"
proof (cases "data sq")
  case Nil
  then show ?thesis using assms by (simp add: computeDepth_def)
next
  case (Cons fr0 rest)
  from assms Cons obtain h w where hw: "shape (dpt fr0) = [h, w]"
    by (auto simp: computeDepth_def Let_def split: list.splits)
  from assms Cons hw obtain j d where jd: "shape (gtorig fr0) = [j, d]"
    by (auto simp: computeDepth_def Let_def split: list.splits)
  show ?thesis
    using assms that [OF Cons hw jd] by (simp add: computeDepth_def Let_def Cons hw jd)
qed

lemma computeRGB_Inr:
  assumes "computeRGB sq nz = Inr (a', b')"
  obtains fr0 rest h w c j d where "data sq = fr0 # rest"
    and "shape (color fr0) = [h, w, c]" and "shape (gtorig fr0) = [j, d]"
    and "stackLoop (\<lambda>fr. Inr (imgRGB nz fr)) sq (data sq) 0
           (zeros [length (data sq), 3, h, w], zeros [length (data sq), j, d]) = Inr (a', b')"
proof (cases "data sq")
  case Nil
  then show ?thesis using assms by (simp add: computeRGB_def)
next
  case (Cons fr0 rest)
  from assms Cons obtain h w c where hw: "shape (color fr0) = [h, w, c]"
    by (auto simp: computeRGB_def Let_def split: list.splits)
  from assms Cons hw obtain j d where jd: "shape (gtorig fr0) = [j, d]"
    by (auto simp: computeRGB_def Let_def split: list.splits)
  show ?thesis
    using assms that [OF Cons hw jd] by (simp add: computeRGB_def Let_def Cons hw jd)
qed









lemma imgRGB_elems:
  "elems (imgRGB nz fr) = map (\<lambda>x. if nz then x / 256 else (x - 128) / 128) (elems (color fr))"
  by (simp add: imgRGB_def nd_map_def)

lemma imgRGB_shape: "shape (imgRGB nz fr) = shape (color fr)"
  by (simp add: imgRGB_def nd_map_def)

lemma wf_imgRGB: "wf_ndarray (imgRGB nz fr) = wf_ndarray (color fr)"
  by (simp add: wf_ndarray_def imgRGB_elems imgRGB_shape)

lemma RGB_computed:
  assumes "imgSeq self seqName = Some sq" and "imgStacks self seqName = None"
    and "imgStackRGBOnly self seqName nz = (Inr (Some st), self')"
  shows "computeRGB sq nz = Inr st"
  using assms RGB_miss [of self seqName sq nz]
  by (cases "computeRGB sq nz") (simp_all add: imgSeq_def)






lemma computeRGB_needs_3x3:
  assumes "computeRGB sq nz = Inr (a', b')" and "shape (color (hd (data sq))) = [h, w, 3]"
  shows "h = 3 \<and> w = 3"
proof -
  from assms(1) obtain fr0 rest h' w' c j d where d: "data sq = fr0 # rest"
    and sh: "shape (color fr0) = [h', w', c]" and "shape (gtorig fr0) = [j, d]"
    and loop: "stackLoop (\<lambda>fr. Inr (imgRGB nz fr)) sq (data sq) 0
       (zeros [length (data sq), 3, h', w'], zeros [length (data sq), j, d]) = Inr (a', b')"
    by (rule computeRGB_Inr)
  from assms(2) d sh have eq: "h' = h" "w' = w" "c = 3" by simp_all
  from loop [unfolded d] obtain im a1 lb b1 where
    im: "Inr (imgRGB nz fr0) = (Inr im :: error + ndarray)"
    and s: "setitem (zeros [length (fr0 # rest), 3, h', w']) 0 im = Inr a1"
    and "label sq fr0 = Inr lb"
    and "setitem (zeros [length (fr0 # rest), j, d]) 0 lb = Inr b1"
    and "stackLoop (\<lambda>fr. Inr (imgRGB nz fr)) sq rest (Suc 0) (a1, b1) = Inr (a', b')"
    by (rule stackLoop_Cons_Inr)
  from s obtain n ds ys where "shape (zeros [length (fr0 # rest), 3, h', w']) = n # ds"
    and "0 < n" and b: "broadcast_to ds im = Some ys"
    and "a1 = (zeros [length (fr0 # rest), 3, h', w'])
        \<lparr>elems := concat ((rows (zeros [length (fr0 # rest), 3, h', w']))[0 := ys])\<rparr>"
    by (rule setitem_Inr)
  then have ds: "ds = [3, h, w]" by (simp add: zeros_def eq)
  from im have "im = imgRGB nz fr0" by simp
  then have "shape im = [h, w, 3]" using sh eq by (simp add: imgRGB_shape)
  with b show ?thesis
    by (simp add: broadcast_to_def ds Let_def split: if_splits)
qed

lemma computeDepth_shape:
  assumes "computeDepth sq nz = Inr (a', b')"
  shows "\<exists>h w j d. shape (dpt (hd (data sq))) = [h, w] \<and> shape (gtorig (hd (data sq))) = [j, d]
    \<and> shape a' = [length (data sq), 1, h, w] \<and> shape b' = [length (data sq), j, d]"
proof -
  from assms obtain fr0 rest h w j d where d: "data sq = fr0 # rest"
    and sh: "shape (dpt fr0) = [h, w]" "shape (gtorig fr0) = [j, d]"
    and loop: "stackLoop (imgD nz sq) sq (data sq) 0
       (zeros [length (data sq), 1, h, w], zeros [length (data sq), j, d]) = Inr (a', b')"
    by (rule computeDepth_Inr)
  show ?thesis using stackLoop_shape [OF loop] sh by (simp add: zeros_def d)
qed

subsection \<open>The examples, evaluated\<close>

lemma ex_computeDepth_False: "computeDepth ex_seq False = Inr (ex_depth_False, ex_label)"
  by code_simp


lemma ex_computeRGB:
  "computeRGB ex_seq False = Inl ValueError" "computeRGB ex_seq True = Inl ValueError"
  by code_simp+

lemma ex_computeRGB3: "computeRGB ex_seq3 True = Inr (ex_rgb_True, ex_label)"
  by code_simp

lemma ex_computeDepth3: "computeDepth ex_seq3 False = Inr (ex_depth_False, ex_label)"
  by code_simp

lemma ex_findSeq: "findSeq (imgSeqs ex_dataset) ''a'' = Some ex_seq"
  by (simp add: ex_dataset_def Dataset_init_def ex_seq_def)

lemma ex_findSeq3: "findSeq (imgSeqs ex_dataset3) ''c'' = Some ex_seq3"
  by (simp add: ex_dataset3_def Dataset_init_def ex_seq3_def)

lemma ex_caches:
  "imgStacks ex_dataset = Map.empty" "dptStacks ex_dataset = Map.empty"
  "labelStacks ex_dataset = Map.empty" "localCache ex_dataset"
  by (simp_all add: ex_dataset_def Dataset_init_def)

lemma ex_caches3:
  "imgStacks ex_dataset3 = Map.empty" "dptStacks ex_dataset3 = Map.empty"
  "labelStacks ex_dataset3 = Map.empty" "localCache ex_dataset3"
  by (simp_all add: ex_dataset3_def Dataset_init_def)

lemma ex_Depth_run:
  "imgStackDepthOnly ex_dataset ''a'' False =
     (Inr (Some (ex_depth_False, ex_label)),
      ex_dataset\<lparr>dptStacks := [''a'' \<mapsto> ex_depth_False], labelStacks := [''a'' \<mapsto> ex_label]\<rparr>)"
  by (simp add: Depth_miss [OF ex_findSeq] ex_caches ex_computeDepth_False)

lemma ex_RGB3_run:
  "imgStackRGBOnly ex_dataset3 ''c'' True =
     (Inr (Some (ex_rgb_True, ex_label)),
      ex_dataset3\<lparr>imgStacks := [''c'' \<mapsto> ex_rgb_True], labelStacks := [''c'' \<mapsto> ex_label]\<rparr>)"
  by (simp add: RGB_miss [OF ex_findSeq3] ex_caches3 ex_computeRGB3)

lemma ex_Depth3_run:
  "imgStackDepthOnly ex_dataset3 ''c'' False =
     (Inr (Some (ex_depth_False, ex_label)),
      ex_dataset3\<lparr>dptStacks := [''c'' \<mapsto> ex_depth_False], labelStacks := [''c'' \<mapsto> ex_label]\<rparr>)"
  by (simp add: Depth_miss [OF ex_findSeq3] ex_caches3 ex_computeDepth3)


lemma ex_imgSeq3: "imgSeq ex_dataset3 ''c'' = Some ex_seq3"
  by (simp add: imgSeq_def ex_findSeq3)



lemma ex_data: "data ex_seq = [ex_frame]" "data ex_seq3 = [ex_frame3]"
  by (simp_all add: ex_seq_def ex_seq3_def)

lemma ex_computeRGB3_False: "computeRGB ex_seq3 False = Inr (ex_rgb_False, ex_label)"
  by code_simp

lemma ex_computeRGB3b: "computeRGB ex_seq3b True = Inr (ex_rgb_True, ex_label_b)"
  by code_simp

lemma ex_computeDepth3b: "computeDepth ex_seq3b False = Inr (ex_depth_b, ex_label_b)"
  by code_simp

lemma ex_labels_differ: "ex_label_b \<noteq> ex_label"
  by (simp add: ex_label_b_def ex_label_def)

lemma ex_depths_differ: "ex_depth_b \<noteq> ex_depth_False"
  by (simp add: ex_depth_b_def ex_depth_False_def)

lemma ex_after_RGB:
  "ex_after_RGB = ex_dataset3\<lparr>imgStacks := [''c'' \<mapsto> ex_rgb_True],
     labelStacks := [''c'' \<mapsto> ex_label], imgSeqs := [ex_seq3b]\<rparr>"
  by (simp add: ex_after_RGB_def ex_RGB3_run)

lemma ex_after_Depth:
  "ex_after_Depth = ex_dataset3\<lparr>dptStacks := [''c'' \<mapsto> ex_depth_False],
     labelStacks := [''c'' \<mapsto> ex_label], imgSeqs := [ex_seq3b]\<rparr>"
  by (simp add: ex_after_Depth_def ex_Depth3_run)

lemma ex_after_RGB_state:
  "localCache ex_after_RGB" "imgSeq ex_after_RGB ''c'' = Some ex_seq3b"
  "imgStacks ex_after_RGB ''c'' = Some ex_rgb_True" "dptStacks ex_after_RGB ''c'' = None"
  "labelStacks ex_after_RGB ''c'' = Some ex_label"
  by (simp_all add: ex_after_RGB ex_caches3 imgSeq_def ex_seq3b_def)

lemma ex_after_Depth_state:
  "localCache ex_after_Depth" "imgSeq ex_after_Depth ''c'' = Some ex_seq3b"
  "dptStacks ex_after_Depth ''c'' = Some ex_depth_False" "imgStacks ex_after_Depth ''c'' = None"
  "labelStacks ex_after_Depth ''c'' = Some ex_label"
  by (simp_all add: ex_after_Depth ex_caches3 imgSeq_def ex_seq3b_def)

lemma ex_caches_dup:
  "imgStacks ex_dataset_dup ''c'' = None" "dptStacks ex_dataset_dup ''c'' = None"
  "localCache ex_dataset_dup" "imgSeqs ex_dataset_dup = [ex_other_seq] @ ex_seq3 # [ex_seq3b]"
  by (simp_all add: ex_dataset_dup_def Dataset_init_def)

subsection \<open>Unknown names\<close>

text \<open>
  Claim C8. For a name that no sequence of the collection has, \<open>imgSeq\<close> returns its
  empty result and both builders return theirs; none raises, and the object is unchanged.
\<close>

theorem unknown_name_soft_miss:
  assumes "seqName \<notin> name ` set (imgSeqs self)"
  shows "imgSeq self seqName = None
    \<and> imgStackRGBOnly self seqName normZeroOne = (Inr None, self)
    \<and> imgStackDepthOnly self seqName normZeroOne = (Inr None, self)"
proof -
  from assms have "findSeq (imgSeqs self) seqName = None"
    by (simp add: findSeq_None_iff)
  then show ?thesis
    by (simp add: imgSeq_def imgStackRGBOnly_def imgStackDepthOnly_def)
qed

theorem unknown_name_soft_miss_witness:
  "''b'' \<notin> name ` set (imgSeqs ex_dataset)
    \<and> imgSeq ex_dataset ''b'' = None
    \<and> imgStackRGBOnly ex_dataset ''b'' False = (Inr None, ex_dataset)
    \<and> imgStackDepthOnly ex_dataset ''b'' False = (Inr None, ex_dataset)"
proof -
  have h: "''b'' \<notin> name ` set (imgSeqs ex_dataset)"
    by (simp add: ex_dataset_def Dataset_init_def ex_seq_def)
  show ?thesis
    using h unknown_name_soft_miss [OF h, of False] by simp
qed

subsection \<open>Duplicate names\<close>

text \<open>
  Claim C10. Where the collection is \<open>pre @ q # post\<close> and \<open>q\<close> is the first sequence named
  \<open>n\<close>, \<open>imgSeq\<close> returns \<open>q\<close>, and each builder, when its image cache has no entry for
  \<open>n\<close>, returns (and with caching enabled stores) the stacks computed from \<open>q\<close>, or
  raises what that computation raises; when the cache has an entry it returns the cached
  stacks. The sequences after \<open>q\<close>, also those named \<open>n\<close>, are not read.
\<close>

theorem first_match_wins:
  assumes "n \<notin> name ` set pre" and "name q = n" and "imgSeqs self = pre @ q # post"
  shows "imgSeq self n = Some q
    \<and> imgStackRGBOnly self n nz =
        (if imgStacks self n = None then
           (case computeRGB q nz of
              Inl e \<Rightarrow> (Inl e, self)
            | Inr st \<Rightarrow>
                (Inr (Some st),
                 if localCache self
                 then self\<lparr>imgStacks := (imgStacks self)(n \<mapsto> fst st),
                           labelStacks := (labelStacks self)(n \<mapsto> snd st)\<rparr>
                 else self))
         else (cached (imgStacks self) (labelStacks self) n, self))
    \<and> imgStackDepthOnly self n nz =
        (if dptStacks self n = None then
           (case computeDepth q nz of
              Inl e \<Rightarrow> (Inl e, self)
            | Inr st \<Rightarrow>
                (Inr (Some st),
                 if localCache self
                 then self\<lparr>dptStacks := (dptStacks self)(n \<mapsto> fst st),
                           labelStacks := (labelStacks self)(n \<mapsto> snd st)\<rparr>
                 else self))
         else (cached (dptStacks self) (labelStacks self) n, self))"
proof -
  have f: "findSeq (imgSeqs self) n = Some q"
    using findSeq_first [OF assms(1,2)] assms(3) by simp
  have rgb: "imgStackRGBOnly self n nz =
        (if imgStacks self n = None then
           (case computeRGB q nz of
              Inl e \<Rightarrow> (Inl e, self)
            | Inr st \<Rightarrow>
                (Inr (Some st),
                 if localCache self
                 then self\<lparr>imgStacks := (imgStacks self)(n \<mapsto> fst st),
                           labelStacks := (labelStacks self)(n \<mapsto> snd st)\<rparr>
                 else self))
         else (cached (imgStacks self) (labelStacks self) n, self))"
  proof (cases "imgStacks self n")
    case None
    show ?thesis unfolding RGB_miss [OF f None] using None by simp
  next
    case (Some a)
    show ?thesis unfolding RGB_hit [OF f Some] using Some by simp
  qed
  have depth: "imgStackDepthOnly self n nz =
        (if dptStacks self n = None then
           (case computeDepth q nz of
              Inl e \<Rightarrow> (Inl e, self)
            | Inr st \<Rightarrow>
                (Inr (Some st),
                 if localCache self
                 then self\<lparr>dptStacks := (dptStacks self)(n \<mapsto> fst st),
                           labelStacks := (labelStacks self)(n \<mapsto> snd st)\<rparr>
                 else self))
         else (cached (dptStacks self) (labelStacks self) n, self))"
  proof (cases "dptStacks self n")
    case None
    show ?thesis unfolding Depth_miss [OF f None] using None by simp
  next
    case (Some a)
    show ?thesis unfolding Depth_hit [OF f Some] using Some by simp
  qed
  show ?thesis using f rgb depth by (simp only: imgSeq_def simp_thms)
qed

theorem first_match_wins_witness:
  "''c'' \<notin> name ` set [ex_other_seq] \<and> name ex_seq3 = ''c'' \<and> name ex_seq3b = ''c''
    \<and> imgSeqs ex_dataset_dup = [ex_other_seq] @ ex_seq3 # [ex_seq3b]
    \<and> computeRGB ex_seq3b True = Inr (ex_rgb_True, ex_label_b)
    \<and> computeDepth ex_seq3b False = Inr (ex_depth_b, ex_label_b)
    \<and> ex_label_b \<noteq> ex_label \<and> ex_depth_b \<noteq> ex_depth_False
    \<and> imgSeq ex_dataset_dup ''c'' = Some ex_seq3
    \<and> imgStackRGBOnly ex_dataset_dup ''c'' True =
        (Inr (Some (ex_rgb_True, ex_label)),
         ex_dataset_dup\<lparr>imgStacks := (imgStacks ex_dataset_dup)(''c'' \<mapsto> ex_rgb_True),
           labelStacks := (labelStacks ex_dataset_dup)(''c'' \<mapsto> ex_label)\<rparr>)
    \<and> imgStackDepthOnly ex_dataset_dup ''c'' False =
        (Inr (Some (ex_depth_False, ex_label)),
         ex_dataset_dup\<lparr>dptStacks := (dptStacks ex_dataset_dup)(''c'' \<mapsto> ex_depth_False),
           labelStacks := (labelStacks ex_dataset_dup)(''c'' \<mapsto> ex_label)\<rparr>)"
proof -
  have h1: "''c'' \<notin> name ` set [ex_other_seq]" by (simp add: ex_other_seq_def)
  have h2: "name ex_seq3 = ''c''" by (simp add: ex_seq3_def)
  have h2b: "name ex_seq3b = ''c''" by (simp add: ex_seq3b_def)
  note t = first_match_wins [OF h1 h2 ex_caches_dup(4)]
  note c1 = t [THEN conjunct1]
  have c2: "imgStackRGBOnly ex_dataset_dup ''c'' True =
        (Inr (Some (ex_rgb_True, ex_label)),
         ex_dataset_dup\<lparr>imgStacks := (imgStacks ex_dataset_dup)(''c'' \<mapsto> ex_rgb_True),
           labelStacks := (labelStacks ex_dataset_dup)(''c'' \<mapsto> ex_label)\<rparr>)"
    unfolding t [THEN conjunct2, THEN conjunct1]
    by (simp add: ex_caches_dup(1,3) ex_computeRGB3)
  have c3: "imgStackDepthOnly ex_dataset_dup ''c'' False =
        (Inr (Some (ex_depth_False, ex_label)),
         ex_dataset_dup\<lparr>dptStacks := (dptStacks ex_dataset_dup)(''c'' \<mapsto> ex_depth_False),
           labelStacks := (labelStacks ex_dataset_dup)(''c'' \<mapsto> ex_label)\<rparr>)"
    unfolding t [THEN conjunct2, THEN conjunct2]
    by (simp add: ex_caches_dup(2,3) ex_computeDepth3)
  show ?thesis
    by (intro conjI)
      (rule h1 h2 h2b ex_caches_dup(4) ex_computeRGB3b ex_computeDepth3b ex_labels_differ
        ex_depths_differ c1 c2 c3)+
qed

subsection \<open>Empty sequences\<close>

text \<open>
  Claim C4, as stated, fails: for a registered sequence without frames both builders raise
  IndexError instead of returning the empty result.
\<close>

theorem empty_sequence_counterexample:
  "imgSeq (Dataset_init (Some [ex_empty_seq]) True) ''a'' = Some ex_empty_seq
    \<and> data ex_empty_seq = []
    \<and> fst (imgStackRGBOnly (Dataset_init (Some [ex_empty_seq]) True) ''a'' False) = Inl IndexError
    \<and> fst (imgStackDepthOnly (Dataset_init (Some [ex_empty_seq]) True) ''a'' False) = Inl IndexError"
  by (simp add: imgSeq_def imgStackRGBOnly_def imgStackDepthOnly_def computeRGB_def
      computeDepth_def Dataset_init_def ex_empty_seq_def)

text \<open>
  Claim C4, amended. For a registered sequence without frames, a builder whose image cache
  has no entry for the name raises IndexError (\<open>data[0]\<close> is read without a guard) and
  leaves the object unchanged.
\<close>

theorem empty_sequence_raises:
  assumes "findSeq (imgSeqs self) seqName = Some sq" and "data sq = []"
  shows "(imgStacks self seqName = None \<longrightarrow>
            imgStackRGBOnly self seqName normZeroOne = (Inl IndexError, self))
    \<and> (dptStacks self seqName = None \<longrightarrow>
            imgStackDepthOnly self seqName normZeroOne = (Inl IndexError, self))"
  using assms
  by (simp add: imgStackRGBOnly_def imgStackDepthOnly_def computeRGB_def computeDepth_def)

theorem empty_sequence_raises_witness:
  "findSeq (imgSeqs (Dataset_init (Some [ex_empty_seq]) False)) ''a'' = Some ex_empty_seq
    \<and> data ex_empty_seq = []
    \<and> imgStacks (Dataset_init (Some [ex_empty_seq]) False) ''a'' = None
    \<and> dptStacks (Dataset_init (Some [ex_empty_seq]) False) ''a'' = None
    \<and> imgStackRGBOnly (Dataset_init (Some [ex_empty_seq]) False) ''a'' True
        = (Inl IndexError, Dataset_init (Some [ex_empty_seq]) False)
    \<and> imgStackDepthOnly (Dataset_init (Some [ex_empty_seq]) False) ''a'' True
        = (Inl IndexError, Dataset_init (Some [ex_empty_seq]) False)"
proof -
  have h1: "findSeq (imgSeqs (Dataset_init (Some [ex_empty_seq]) False)) ''a'' = Some ex_empty_seq"
    by (simp add: Dataset_init_def ex_empty_seq_def)
  have h2: "data ex_empty_seq = []" by (simp add: ex_empty_seq_def)
  have h3: "imgStacks (Dataset_init (Some [ex_empty_seq]) False) ''a'' = None"
    "dptStacks (Dataset_init (Some [ex_empty_seq]) False) ''a'' = None"
    by (simp_all add: Dataset_init_def)
  show ?thesis
    using h1 h2 h3 empty_sequence_raises [OF h1 h2, of True] by simp
qed

subsection \<open>The caches and the normalization mode\<close>




subsection \<open>Separate image caches, one label cache\<close>

text \<open>
  Claim C9. With caching enabled, a builder that computes the stacks for a name stores
  its image stack in its own cache, leaves the image cache of the other builder as it
  is, and stores its label stack in the one label cache, in place of the label stack the
  cache held for that name. The other builder, when its cache holds an image stack for
  the name, then returns that image stack with the label stack just computed.
\<close>

theorem label_cache_shared:
  assumes "localCache self" and "imgSeq self n = Some sq"
  shows "(imgStacks self n = None \<longrightarrow> computeRGB sq nz = Inr (i, l) \<longrightarrow>
           imgStackRGBOnly self n nz =
             (Inr (Some (i, l)),
              self\<lparr>imgStacks := (imgStacks self)(n \<mapsto> i),
                    labelStacks := (labelStacks self)(n \<mapsto> l)\<rparr>)
           \<and> (dptStacks self n = Some a \<longrightarrow>
                imgStackDepthOnly
                  (self\<lparr>imgStacks := (imgStacks self)(n \<mapsto> i),
                         labelStacks := (labelStacks self)(n \<mapsto> l)\<rparr>) n nz' =
                  (Inr (Some (a, l)),
                   self\<lparr>imgStacks := (imgStacks self)(n \<mapsto> i),
                         labelStacks := (labelStacks self)(n \<mapsto> l)\<rparr>)))
     \<and> (dptStacks self n = None \<longrightarrow> computeDepth sq nz = Inr (i, l) \<longrightarrow>
           imgStackDepthOnly self n nz =
             (Inr (Some (i, l)),
              self\<lparr>dptStacks := (dptStacks self)(n \<mapsto> i),
                    labelStacks := (labelStacks self)(n \<mapsto> l)\<rparr>)
           \<and> (imgStacks self n = Some a \<longrightarrow>
                imgStackRGBOnly
                  (self\<lparr>dptStacks := (dptStacks self)(n \<mapsto> i),
                         labelStacks := (labelStacks self)(n \<mapsto> l)\<rparr>) n nz' =
                  (Inr (Some (a, l)),
                   self\<lparr>dptStacks := (dptStacks self)(n \<mapsto> i),
                         labelStacks := (labelStacks self)(n \<mapsto> l)\<rparr>)))"
proof -
  have f: "findSeq (imgSeqs self) n = Some sq"
    using assms(2) by (simp add: imgSeq_def)
  have rgb: "imgStackRGBOnly self n nz =
             (Inr (Some (i, l)),
              self\<lparr>imgStacks := (imgStacks self)(n \<mapsto> i),
                    labelStacks := (labelStacks self)(n \<mapsto> l)\<rparr>)"
    if "imgStacks self n = None" "computeRGB sq nz = Inr (i, l)"
    using assms(1) that(2) by (simp add: RGB_miss [OF f that(1)])
  have depth_after: "imgStackDepthOnly
                  (self\<lparr>imgStacks := (imgStacks self)(n \<mapsto> i),
                         labelStacks := (labelStacks self)(n \<mapsto> l)\<rparr>) n nz' =
                  (Inr (Some (a, l)),
                   self\<lparr>imgStacks := (imgStacks self)(n \<mapsto> i),
                         labelStacks := (labelStacks self)(n \<mapsto> l)\<rparr>)"
    if "dptStacks self n = Some a"
    by (rule Depth_served [where sq = sq]) (simp_all add: f that)
  have depth: "imgStackDepthOnly self n nz =
             (Inr (Some (i, l)),
              self\<lparr>dptStacks := (dptStacks self)(n \<mapsto> i),
                    labelStacks := (labelStacks self)(n \<mapsto> l)\<rparr>)"
    if "dptStacks self n = None" "computeDepth sq nz = Inr (i, l)"
    using assms(1) that(2) by (simp add: Depth_miss [OF f that(1)])
  have rgb_after: "imgStackRGBOnly
                  (self\<lparr>dptStacks := (dptStacks self)(n \<mapsto> i),
                         labelStacks := (labelStacks self)(n \<mapsto> l)\<rparr>) n nz' =
                  (Inr (Some (a, l)),
                   self\<lparr>dptStacks := (dptStacks self)(n \<mapsto> i),
                         labelStacks := (labelStacks self)(n \<mapsto> l)\<rparr>)"
    if "imgStacks self n = Some a"
    by (rule RGB_served [where sq = sq]) (simp_all add: f that)
  show ?thesis using rgb depth_after depth rgb_after by blast
qed

theorem label_cache_shared_witness:
  "localCache ex_after_Depth \<and> imgSeq ex_after_Depth ''c'' = Some ex_seq3b
    \<and> imgStacks ex_after_Depth ''c'' = None
    \<and> dptStacks ex_after_Depth ''c'' = Some ex_depth_False
    \<and> labelStacks ex_after_Depth ''c'' = Some ex_label
    \<and> computeRGB ex_seq3b True = Inr (ex_rgb_True, ex_label_b)
    \<and> ex_label_b \<noteq> ex_label
    \<and> imgStackRGBOnly ex_after_Depth ''c'' True =
        (Inr (Some (ex_rgb_True, ex_label_b)),
         ex_after_Depth\<lparr>imgStacks := (imgStacks ex_after_Depth)(''c'' \<mapsto> ex_rgb_True),
           labelStacks := (labelStacks ex_after_Depth)(''c'' \<mapsto> ex_label_b)\<rparr>)
    \<and> imgStackDepthOnly
        (ex_after_Depth\<lparr>imgStacks := (imgStacks ex_after_Depth)(''c'' \<mapsto> ex_rgb_True),
           labelStacks := (labelStacks ex_after_Depth)(''c'' \<mapsto> ex_label_b)\<rparr>) ''c'' True =
        (Inr (Some (ex_depth_False, ex_label_b)),
         ex_after_Depth\<lparr>imgStacks := (imgStacks ex_after_Depth)(''c'' \<mapsto> ex_rgb_True),
           labelStacks := (labelStacks ex_after_Depth)(''c'' \<mapsto> ex_label_b)\<rparr>)
    \<and> localCache ex_after_RGB \<and> imgSeq ex_after_RGB ''c'' = Some ex_seq3b
    \<and> dptStacks ex_after_RGB ''c'' = None
    \<and> imgStacks ex_after_RGB ''c'' = Some ex_rgb_True
    \<and> labelStacks ex_after_RGB ''c'' = Some ex_label
    \<and> computeDepth ex_seq3b False = Inr (ex_depth_b, ex_label_b)
    \<and> imgStackDepthOnly ex_after_RGB ''c'' False =
        (Inr (Some (ex_depth_b, ex_label_b)),
         ex_after_RGB\<lparr>dptStacks := (dptStacks ex_after_RGB)(''c'' \<mapsto> ex_depth_b),
           labelStacks := (labelStacks ex_after_RGB)(''c'' \<mapsto> ex_label_b)\<rparr>)
    \<and> imgStackRGBOnly
        (ex_after_RGB\<lparr>dptStacks := (dptStacks ex_after_RGB)(''c'' \<mapsto> ex_depth_b),
           labelStacks := (labelStacks ex_after_RGB)(''c'' \<mapsto> ex_label_b)\<rparr>) ''c'' False =
        (Inr (Some (ex_rgb_True, ex_label_b)),
         ex_after_RGB\<lparr>dptStacks := (dptStacks ex_after_RGB)(''c'' \<mapsto> ex_depth_b),
           labelStacks := (labelStacks ex_after_RGB)(''c'' \<mapsto> ex_label_b)\<rparr>)"
proof -
  note d = label_cache_shared [OF ex_after_Depth_state(1,2), THEN conjunct1, THEN mp,
      OF ex_after_Depth_state(4), THEN mp, OF ex_computeRGB3b]
  note d1 = d [THEN conjunct1]
  note d2 = d [THEN conjunct2, THEN mp, OF ex_after_Depth_state(3), of True]
  note r = label_cache_shared [OF ex_after_RGB_state(1,2), THEN conjunct2, THEN mp,
      OF ex_after_RGB_state(4), THEN mp, OF ex_computeDepth3b]
  note r1 = r [THEN conjunct1]
  note r2 = r [THEN conjunct2, THEN mp, OF ex_after_RGB_state(3), of False]
  show ?thesis
    by (intro conjI)
      (rule ex_after_Depth_state ex_after_RGB_state ex_computeRGB3b ex_computeDepth3b
        ex_labels_differ d1 d2 r1 r2)+
qed

subsection \<open>The setter and the label cache\<close>

text \<open>
  Claim C1 says that the setter clears the label stacks too. On the example the label
  stack cached for \<open>''a''\<close> is still in \<open>_labelStacks\<close> after the collection has been
  replaced by the empty one, while the depth cache has been cleared.
\<close>

theorem label_cache_not_cleared:
  "labelStacks (imgSeqs_setter (snd (imgStackDepthOnly ex_dataset ''a'' False)) []) ''a''
     = Some ex_label
   \<and> dptStacks (imgSeqs_setter (snd (imgStackDepthOnly ex_dataset ''a'' False)) []) ''a'' = None"
  by (simp add: ex_Depth_run imgSeqs_setter_def)

text \<open>
  What the builders return after the setter does not depend on the entry that is left:
  both image caches are empty, so each builder returns what it returns on a new object
  with the new collection.
\<close>

lemma setter_recomputes:
  "fst (imgStackRGBOnly (imgSeqs_setter self v) n nz)
     = fst (imgStackRGBOnly (Dataset_init (Some v) (localCache self)) n nz)"
  "fst (imgStackDepthOnly (imgSeqs_setter self v) n nz)
     = fst (imgStackDepthOnly (Dataset_init (Some v) (localCache self)) n nz)"
proof -
  let ?s = "imgSeqs_setter self v" and ?t = "Dataset_init (Some v) (localCache self)"
  have m: "imgStacks ?s n = None" "imgStacks ?t n = None"
    "dptStacks ?s n = None" "dptStacks ?t n = None"
    by (simp_all add: imgSeqs_setter_def Dataset_init_def)
  have f: "findSeq (imgSeqs ?s) n = findSeq v n" "findSeq (imgSeqs ?t) n = findSeq v n"
    by (simp_all add: imgSeqs_setter_def Dataset_init_def)
  show "fst (imgStackRGBOnly ?s n nz) = fst (imgStackRGBOnly ?t n nz)"
  proof (cases "findSeq v n")
    case None
    then show ?thesis using f by (simp add: imgStackRGBOnly_def)
  next
    case (Some sq)
    show ?thesis
      unfolding RGB_miss [OF f(1) [unfolded Some] m(1)] RGB_miss [OF f(2) [unfolded Some] m(2)]
      by (cases "computeRGB sq nz") simp_all
  qed
  show "fst (imgStackDepthOnly ?s n nz) = fst (imgStackDepthOnly ?t n nz)"
  proof (cases "findSeq v n")
    case None
    then show ?thesis using f by (simp add: imgStackDepthOnly_def)
  next
    case (Some sq)
    show ?thesis
      unfolding Depth_miss [OF f(1) [unfolded Some] m(3)]
        Depth_miss [OF f(2) [unfolded Some] m(4)]
      by (cases "computeDepth sq nz") simp_all
  qed
qed

subsection \<open>The shape of the color stack\<close>

text \<open>
  Claim C2 says that color frames of shape (H, W, 3) give an image stack of shape
  (N, 3, H, W). On the example, one frame with a 2 x 2 color image and a 1 x 3 label, the
  assignment \<open>imgStack[i] = imgRGB\<close> of line 104 raises ValueError under both modes: the
  frame of shape (2, 2, 3) is assigned without a transposition and does not broadcast to
  the shape (3, 2, 2) of \<open>imgStack[i]\<close>. By \<open>computeRGB_needs_3x3\<close> the same
  happens for every first frame of shape (H, W, 3) other than (3, 3, 3).
\<close>

theorem color_assignment_fails:
  "imgSeq ex_dataset ''a'' = Some ex_seq
    \<and> map (shape \<circ> color) (data ex_seq) = [[2, 2, 3]]
    \<and> map (shape \<circ> gtorig) (data ex_seq) = [[1, 3]]
    \<and> fst (imgStackRGBOnly ex_dataset ''a'' False) = Inl ValueError
    \<and> fst (imgStackRGBOnly ex_dataset ''a'' True) = Inl ValueError"
  by (simp add: imgSeq_def RGB_miss [OF ex_findSeq] ex_caches ex_computeRGB ex_findSeq)
    (simp add: ex_seq_def ex_frame_def)

subsection \<open>Depth holes\<close>




subsection \<open>Clipped labels\<close>



subsection \<open>Normalized color values\<close>

text \<open>
  Claim C7, as stated, fails: with caching enabled, after a request with
  \<open>normZeroOne = False\<close> the request with \<open>normZeroOne = True\<close> returns the cached stack
  of \<open>(color - 128) / 128\<close>, whose first value is -1 and not \<open>color / 256 = 0\<close>, though
  all color values lie in [0, 255].
\<close>

theorem color_normalized_counterexample:
  "list_all (\<lambda>fr. list_all (\<lambda>x. 0 \<le> x \<and> x \<le> 255) (elems (color fr))) (data ex_seq3)
    \<and> imgSeq ex_dataset3 ''c'' = Some ex_seq3
    \<and> fst (imgStackRGBOnly ex_dataset3 ''c'' False) = Inr (Some (ex_rgb_False, ex_label))
    \<and> fst (imgStackRGBOnly (snd (imgStackRGBOnly ex_dataset3 ''c'' False)) ''c'' True)
        = Inr (Some (ex_rgb_False, ex_label))
    \<and> elems (color (data ex_seq3 ! 0)) ! 0 / 256 = 0
    \<and> getitem ex_rgb_False 0 ! 0 = - 1"
proof -
  have r: "imgStackRGBOnly ex_dataset3 ''c'' False =
     (Inr (Some (ex_rgb_False, ex_label)),
      ex_dataset3\<lparr>imgStacks := [''c'' \<mapsto> ex_rgb_False], labelStacks := [''c'' \<mapsto> ex_label]\<rparr>)"
    by (simp add: RGB_miss [OF ex_findSeq3] ex_caches3 ex_computeRGB3_False)
  have h: "imgStackRGBOnly (snd (imgStackRGBOnly ex_dataset3 ''c'' False)) ''c'' True
      = (Inr (Some (ex_rgb_False, ex_label)), snd (imgStackRGBOnly ex_dataset3 ''c'' False))"
    by (rule RGB_served [where sq = ex_seq3]) (simp_all add: r ex_findSeq3)
  have b: "list_all (\<lambda>fr. list_all (\<lambda>x. 0 \<le> x \<and> x \<le> 255) (elems (color fr)))
      (data ex_seq3)"
    by (simp add: ex_data ex_frame3_def)
  have c: "elems (color (data ex_seq3 ! 0)) ! 0 / 256 = 0"
    by (simp add: ex_data ex_frame3_def)
  have g: "getitem ex_rgb_False 0 ! 0 = - 1"
    by (simp add: getitem_def rows_def ex_rgb_False_def)
  have r1: "fst (imgStackRGBOnly ex_dataset3 ''c'' False) = Inr (Some (ex_rgb_False, ex_label))"
    by (simp add: r)
  have h1: "fst (imgStackRGBOnly (snd (imgStackRGBOnly ex_dataset3 ''c'' False)) ''c'' True)
        = Inr (Some (ex_rgb_False, ex_label))"
    by (simp only: h fst_conv)
  show ?thesis
    by (intro conjI) (rule b ex_imgSeq3 r1 h1 c g)+
qed

text \<open>
  Claim C7, amended. When the image cache has no entry for the name, so that
  \<open>imgStackRGBOnly\<close> computes the stacks, and the color values of the sequence
  lie in [0, 255], every element of the image stack lies in [0, 1) if \<open>normZeroOne\<close> and
  in [-1, 1] otherwise; and for a frame whose color array has the shape of an image slot,
  the slot is \<open>color / 256\<close>, respectively \<open>(color - 128) / 128\<close>, elementwise.
\<close>

theorem color_normalized:
  assumes found: "imgSeq self seqName = Some sq"
    and miss: "imgStacks self seqName = None"
    and built: "imgStackRGBOnly self seqName nz = (Inr (Some (imgStack, labelStack)), self')"
    and bytes: "\<forall>fr\<in>set (data sq). \<forall>x\<in>set (elems (color fr)). 0 \<le> x \<and> x \<le> 255"
  shows "(\<forall>y\<in>set (elems imgStack). if nz then 0 \<le> y \<and> y < 1 else - 1 \<le> y \<and> y \<le> 1)
    \<and> ((\<forall>fr\<in>set (data sq). wf_ndarray (color fr)) \<longrightarrow>
        (\<forall>i<length (data sq). shape (color (data sq ! i)) = tl (shape imgStack) \<longrightarrow>
           getitem imgStack i
             = map (\<lambda>x. if nz then x / 256 else (x - 128) / 128) (elems (color (data sq ! i)))))"
proof -
  have "computeRGB sq nz = Inr (imgStack, labelStack)"
    using found miss built by (rule RGB_computed)
  then obtain fr0 rest h w c j d where "data sq = fr0 # rest"
    and "shape (color fr0) = [h, w, c]" and "shape (gtorig fr0) = [j, d]"
    and loop: "stackLoop (\<lambda>fr. Inr (imgRGB nz fr)) sq (data sq) 0
       (zeros [length (data sq), 3, h, w], zeros [length (data sq), j, d])
         = Inr (imgStack, labelStack)"
    by (rule computeRGB_Inr)
  have sh: "tl (shape imgStack) = [3, h, w]"
    using stackLoop_shape [OF loop] by (simp add: zeros_def)
  have range: "\<forall>y\<in>set (elems imgStack). if nz then 0 \<le> y \<and> y < 1 else - 1 \<le> y \<and> y \<le> 1"
  proof (rule stackLoop_elems_img [OF loop])
    show "\<forall>x\<in>set (elems (zeros [length (data sq), 3, h, w])).
        if nz then 0 \<le> x \<and> x < 1 else - 1 \<le> x \<and> x \<le> 1"
      by (simp add: zeros_def)
  next
    fix fr im y
    assume fr: "fr \<in> set (data sq)" and "Inr (imgRGB nz fr) = (Inr im :: error + ndarray)"
      and y: "y \<in> set (elems im)"
    then have "y \<in> (\<lambda>x. if nz then x / 256 else (x - 128) / 128) ` set (elems (color fr))"
      by (auto simp: imgRGB_elems)
    then obtain x where x: "x \<in> set (elems (color fr))"
      and yx: "y = (if nz then x / 256 else (x - 128) / 128)" by blast
    from bytes fr x have "0 \<le> x \<and> x \<le> 255" by blast
    then show "if nz then 0 \<le> y \<and> y < 1 else - 1 \<le> y \<and> y \<le> 1"
      unfolding yx by simp
  qed
  have rows: "getitem imgStack i
      = map (\<lambda>x. if nz then x / 256 else (x - 128) / 128) (elems (color (data sq ! i)))"
    if wf: "\<forall>fr\<in>set (data sq). wf_ndarray (color fr)" and i: "i < length (data sq)"
      and shi: "shape (color (data sq ! i)) = tl (shape imgStack)" for i
  proof -
    have w: "wf_ndarray im"
      if "fr \<in> set (data sq)" "Inr (imgRGB nz fr) = (Inr im :: error + ndarray)" for fr im
      using that wf by (auto simp: wf_imgRGB)
    have "\<forall>j<length (data sq). \<exists>im ys.
        Inr (imgRGB nz (data sq ! j)) = (Inr im :: error + ndarray)
        \<and> broadcast_to (tl (shape (zeros [length (data sq), 3, h, w]))) im = Some ys
        \<and> getitem imgStack (0 + j) = ys"
      using stackLoop_rows_img [OF loop wf_zeros] w by blast
    with i obtain im ys where im: "Inr (imgRGB nz (data sq ! i)) = (Inr im :: error + ndarray)"
      and ys: "broadcast_to (tl (shape (zeros [length (data sq), 3, h, w]))) im = Some ys"
      and g: "getitem imgStack (0 + i) = ys"
      by blast
    from im have im': "im = imgRGB nz (data sq ! i)" by simp
    have "wf_ndarray im" using w [OF _ im] i by simp
    then have "broadcast_to [3, h, w] im = Some (elems im)"
      by (rule broadcast_to_same) (simp add: im' imgRGB_shape shi sh)
    with ys have "ys = elems im" by (simp add: zeros_def)
    with g show ?thesis by (simp add: im' imgRGB_elems)
  qed
  show ?thesis using range rows by blast
qed

theorem color_normalized_witness:
  "imgSeq ex_dataset3 ''c'' = Some ex_seq3
    \<and> imgStacks ex_dataset3 ''c'' = None
    \<and> fst (imgStackRGBOnly ex_dataset3 ''c'' True) = Inr (Some (ex_rgb_True, ex_label))
    \<and> list_all (\<lambda>fr. list_all (\<lambda>x. 0 \<le> x \<and> x \<le> 255) (elems (color fr))) (data ex_seq3)
    \<and> list_all (\<lambda>fr. wf_ndarray (color fr)) (data ex_seq3)
    \<and> 0 < length (data ex_seq3)
    \<and> shape (color (data ex_seq3 ! 0)) = tl (shape ex_rgb_True)
    \<and> list_all (\<lambda>y. if True then 0 \<le> y \<and> y < 1 else - 1 \<le> y \<and> y \<le> 1)
          (elems ex_rgb_True)
    \<and> getitem ex_rgb_True 0
        = map (\<lambda>x. if True then x / 256 else (x - 128) / 128) (elems (color (data ex_seq3 ! 0)))"
proof -
  have h2: "imgStacks ex_dataset3 ''c'' = None" by (simp add: ex_caches3)
  have r1: "fst (imgStackRGBOnly ex_dataset3 ''c'' True) = Inr (Some (ex_rgb_True, ex_label))"
    by (simp add: ex_RGB3_run)
  have h4: "list_all (\<lambda>fr. list_all (\<lambda>x. 0 \<le> x \<and> x \<le> 255) (elems (color fr)))
      (data ex_seq3)"
    by (simp add: ex_data ex_frame3_def)
  have wf: "list_all (\<lambda>fr. wf_ndarray (color fr)) (data ex_seq3)"
    by (simp add: ex_data ex_frame3_def wf_ndarray_def)
  have sh: "shape (color (data ex_seq3 ! 0)) = tl (shape ex_rgb_True)"
    by (simp add: ex_data ex_frame3_def ex_rgb_True_def)
  have i: "0 < length (data ex_seq3)" by (simp add: ex_data)
  note t = color_normalized [OF ex_imgSeq3 h2 ex_RGB3_run h4 [unfolded list_all_iff]]
  note c1 = t [THEN conjunct1, folded list_all_iff]
  note c2 = t [THEN conjunct2, THEN mp, OF wf [unfolded list_all_iff], THEN spec, of 0,
      THEN mp, OF i, THEN mp, OF sh]
  show ?thesis
    by (intro conjI) (rule ex_imgSeq3 h2 r1 h4 wf i sh c1 c2)+
qed

end
